theory Spec2Isabelle
  imports Main "HOL-Library.Finite_Map"
begin

section \<open>The bridging header of Dictum\<close>

text \<open>
  The repository is one file, \<^verbatim>\<open>src/SherpaOnnx-Bridging-Header.h\<close>. It is a
  program for the C preprocessor, so it is modelled in two layers: the text of the
  file, line by line as it stands in the source, and the meaning the preprocessor gives
  to such a text (a reader that classifies each line, and an interpreter that runs the
  classified lines on a preprocessor state). The imported header
  \<^verbatim>\<open>sherpa-onnx/c-api/c-api.h\<close> belongs to another project; it enters every
  statement as the content of a file system that is universally quantified.
\<close>

subsection \<open>The text of the file\<close>

definition bridging_header_text :: "string list" where
  \<open>bridging_header_text =
    [''// SherpaOnnx-Bridging-Header.h'',
     ''// Bridging header for sherpa-onnx C API in Dictum'',
     ''//'',
     ''// This header imports the C API functions so they can be used from Swift'',
     '''',
     ''#ifndef SHERPAONNX_BRIDGING_HEADER_H_'',
     ''#define SHERPAONNX_BRIDGING_HEADER_H_'',
     '''',
     ''#import "sherpa-onnx/c-api/c-api.h"'',
     '''',
     ''#endif  // SHERPAONNX_BRIDGING_HEADER_H_'']\<close>

text \<open>The two names the file mentions: its guard macro and the header it imports.\<close>

definition guard :: string where
  "guard = ''SHERPAONNX_BRIDGING_HEADER_H_''"

definition c_api :: string where
  "c_api = ''sherpa-onnx/c-api/c-api.h''"

subsection \<open>Lines of a header\<close>

text \<open>
  The fragment of the preprocessor language that is interpreted: the conditionals on
  the definedness of one macro, definition of a macro without parameters and removal of
  a macro, the two inclusion directives, \<^verbatim>\<open>#error\<close>, and lines of code.
  Every other directive is \<open>Unknown\<close>, and so is a directive followed by
  anything but a \<^verbatim>\<open>//\<close> comment. A line outside the fragment is refused
  wherever it stands, also in a branch that is passed over: the run fails there, so
  that no statement below rests on a guess about it.
\<close>

datatype line =
    Blank
  | Comment string
  | Ifdef string
  | Ifndef string
  | Else
  | Endif
  | Define string string
  | Undef string
  | Include string
  | Import string
  | Error string
  | Unknown string
  | Code string

definition is_space :: "char \<Rightarrow> bool" where
  "is_space c = (c = CHR '' '' \<or> c = CHR 0x09)"

definition is_digit :: "char \<Rightarrow> bool" where
  "is_digit c = (c \<in> set ''0123456789'')"

definition is_ident :: "char \<Rightarrow> bool" where
  "is_ident c = (c \<in> set ''abcdefghijklmnopqrstuvwxyzABCDEFGHIJKLMNOPQRSTUVWXYZ0123456789_'')"

definition ltrim :: "string \<Rightarrow> string" where
  "ltrim s = dropWhile is_space s"

text \<open>The part of a line before a \<^verbatim>\<open>//\<close> comment.\<close>

fun strip_comment :: "string \<Rightarrow> string" where
  "strip_comment (c # d # s) =
     (if c = CHR ''/'' \<and> d = CHR ''/'' then [] else c # strip_comment (d # s))"
| "strip_comment s = s"

text \<open>
  A text with no line break, no backslash and no question mark: nothing in it joins
  the line to the next one.
\<close>

definition calm :: "string \<Rightarrow> bool" where
  "calm t = list_all (\<lambda>c. c \<noteq> CHR 0x0A \<and> c \<noteq> CHR 0x0D \<and> c \<noteq> CHR 0x5C \<and> c \<noteq> CHR ''?'') t"

text \<open>What may follow a directive: blanks, then nothing or a calm comment.\<close>

definition trailing_ok :: "string \<Rightarrow> bool" where
  "trailing_ok r = (let t = ltrim r in (t = [] \<or> take 2 t = ''//'') \<and> calm t)"

text \<open>
  The file name of an inclusion, between double quotes or angle brackets closed on
  the same line, and what follows it. Any other form is outside the fragment.
\<close>

fun path_of :: "string \<Rightarrow> (string \<times> string) option" where
  "path_of [] = None"
| "path_of (c # s) =
     (if c = CHR 0x22 \<and> CHR 0x22 \<in> set s
        then Some (takeWhile (\<lambda>d. d \<noteq> CHR 0x22) s, tl (dropWhile (\<lambda>d. d \<noteq> CHR 0x22) s))
      else if c = CHR ''<'' \<and> CHR ''>'' \<in> set s
        then Some (takeWhile (\<lambda>d. d \<noteq> CHR ''>'') s, tl (dropWhile (\<lambda>d. d \<noteq> CHR ''>'') s))
      else None)"

definition parse_directive :: "string \<Rightarrow> line" where
  "parse_directive r =
     (let name = takeWhile is_ident r;
          rest = ltrim (dropWhile is_ident r);
          arg = takeWhile is_ident rest;
          after = dropWhile is_ident rest
      in if name = ''ifdef'' \<and> trailing_ok after then Ifdef arg
         else if name = ''ifndef'' \<and> trailing_ok after then Ifndef arg
         else if name = ''else'' \<and> trailing_ok rest then Else
         else if name = ''endif'' \<and> trailing_ok rest then Endif
         else if name = ''define'' \<and> (after = [] \<or> is_space (hd after)) \<and> calm after
           then Define arg (strip_comment (ltrim after))
         else if name = ''undef'' \<and> trailing_ok after then Undef arg
         else if name = ''include'' then
           (case path_of rest of
              None \<Rightarrow> Unknown r
            | Some (p, t) \<Rightarrow> if trailing_ok t then Include p else Unknown r)
         else if name = ''import'' then
           (case path_of rest of
              None \<Rightarrow> Unknown r
            | Some (p, t) \<Rightarrow> if trailing_ok t then Import p else Unknown r)
         else if name = ''error'' then Error rest
         else if name = [] \<and> trailing_ok rest then Blank
         else Unknown r)"

definition parse_line :: "string \<Rightarrow> line" where
  "parse_line s =
     (let t = ltrim s
      in if t = [] then Blank
         else if hd t = CHR ''#'' then parse_directive (ltrim (tl t))
         else if take 2 t = ''//'' then Comment t
         else Code s)"

definition bridging_header :: "line list" where
  "bridging_header = map parse_line bridging_header_text"

subsection \<open>Tokens and macro replacement\<close>

text \<open>
  The text of a line of code, or of the replacement of a macro, is within the fragment
  when it is made of letters, digits, underscores, blanks and the punctuation listed
  here: no quote, no backslash, no slash, no \<^verbatim>\<open>#\<close>, \<^verbatim>\<open>?\<close> or
  \<^verbatim>\<open>%\<close>. So there is no string or character constant, no comment, no line
  continuation, no token pasting, no trigraph and no digraph for \<^verbatim>\<open>#\<close> to
  account for.
\<close>

definition plain :: "string \<Rightarrow> bool" where
  "plain t = list_all (\<lambda>c. is_ident c \<or> is_space c \<or> c \<in> set '';,(){}[]*&=+-.<>!~^|:'') t"

text \<open>
  Tokens of a plain text: maximal runs of letters, digits and underscores, numbers in
  the preprocessor's sense (a digit, or a dot and a digit, then letters, digits,
  underscores, dots, and signs after an exponent letter), and single punctuation
  characters. Blanks separate tokens and are dropped.
\<close>

definition in_number :: "string \<Rightarrow> char \<Rightarrow> bool" where
  "in_number acc c =
     (acc \<noteq> [] \<and> (is_digit (hd acc) \<or> hd acc = CHR ''.'') \<and>
      (c = CHR ''.'' \<or> ((c = CHR ''+'' \<or> c = CHR ''-'') \<and> last acc \<in> set ''eEpP'')))"

fun scan :: "string \<Rightarrow> string \<Rightarrow> string list" where
  "scan acc [] = (if acc = [] then [] else [acc])"
| "scan acc (c # s) =
     (if is_ident c \<or> in_number acc c then scan (acc @ [c]) s
      else (if acc = [] then [] else [acc]) @
           (if c = CHR ''.'' \<and> s \<noteq> [] \<and> is_digit (hd s) then scan [c] s
            else (if is_space c then [] else [[c]]) @ scan [] s))"

definition tokenize :: "string \<Rightarrow> string list" where
  "tokenize t = scan [] t"

text \<open>A macro name: an identifier. Names kept for the implementation are refused.\<close>

definition is_name :: "string \<Rightarrow> bool" where
  "is_name x = (x \<noteq> [] \<and> \<not> is_digit (hd x) \<and> list_all is_ident x)"

definition reserved :: "string \<Rightarrow> bool" where
  "reserved x = (take 2 x = ''__'' \<or> x = ''_Pragma'')"

definition supported_text :: "string \<Rightarrow> bool" where
  "supported_text t = (plain t \<and> list_all (\<lambda>x. \<not> reserved x) (tokenize t))"

text \<open>
  Replacement of macros without parameters in a list of tokens. Only a token that is
  a name can stand for a macro. The replacement of a macro is scanned again, with the
  macro itself out of the table, so that a macro is never replaced inside its own
  replacement.
\<close>

function expand :: "(string, string list) fmap \<Rightarrow> string list \<Rightarrow> string list" where
  "expand M [] = []"
| "expand M (x # xs) =
     (case (if is_name x then fmlookup M x else None) of
        None \<Rightarrow> [x]
      | Some b \<Rightarrow> expand (fmdrop x M) b) @ expand M xs"
  by pat_completeness auto
termination
proof (relation "measures [\<lambda>(M, ts). card (fmdom' M), \<lambda>(M, ts). length ts]")
  show "wf (measures [\<lambda>(M, ts). card (fmdom' M), \<lambda>(M, ts). length ts])" by simp
next
  fix M :: "(string, string list) fmap" and x xs b
  assume "(if is_name x then fmlookup M x else None) = Some b"
  then have "fmlookup M x = Some b" by (simp split: if_splits)
  then have mem: "x \<in> fmdom' M" by (rule fmdom'I)
  have fin: "finite (fmdom' M)" by (simp add: fmdom'_alt_def)
  have "card (fmdom' M - {x}) < card (fmdom' M)"
    by (rule card_Diff1_less[OF fin mem])
  then show "((fmdrop x M, b), (M, x # xs)) \<in>
      measures [\<lambda>(M, ts). card (fmdom' M), \<lambda>(M, ts). length ts]"
    by simp
next
  fix M :: "(string, string list) fmap" and x xs
  show "((M, xs), (M, x # xs)) \<in> measures [\<lambda>(M, ts). card (fmdom' M), \<lambda>(M, ts). length ts]"
    by simp
qed


subsection \<open>The preprocessor state and the interpreter\<close>

text \<open>
  The state of a translation unit: the table of macros, each with the tokens of its
  replacement, the files that have been entered, the files marked to be entered once
  only (by \<^verbatim>\<open>#import\<close>), and the lines of code emitted so far, oldest first,
  each as its tokens after macro replacement. These lines are what the compiler sees of
  the translation unit: its declarations.
\<close>

record pp_state =
  table :: "(string, string list) fmap"
  entered :: "string set"
  once :: "string set"
  emitted :: "string list list"

text \<open>The macros that are defined.\<close>

definition macros :: "pp_state \<Rightarrow> string set" where
  "macros st = fmdom' (table st)"

text \<open>
  The failures of a run. \<open>Unsupported\<close> is the refusal of a line outside the
  fragment; the others are failures of the preprocessor itself.
\<close>

datatype error =
    FileNotFound string
  | ErrorDirective string
  | Unsupported line
  | ElseWithoutIf
  | ElseAfterElse
  | EndifWithoutIf
  | UnterminatedConditional

type_synonym files = "(string \<times> line list) list"

text \<open>
  One entry of the stack per open conditional: whether its current branch is selected,
  and whether its \<^verbatim>\<open>#else\<close> has been seen. A line takes effect when every open
  conditional selects it.
\<close>

type_synonym conds = "(bool \<times> bool) list"

definition active :: "conds \<Rightarrow> bool" where
  "active stk = list_all fst stk"

text \<open>
  A line within the fragment: a directive that is interpreted, with a proper macro
  name; a replacement or a line of code of plain text without reserved names; and
  nothing, in a comment or a message either, that joins the line to the next one or
  opens a comment that runs on.
\<close>

fun supported :: "line \<Rightarrow> bool" where
  "supported Blank = True"
| "supported (Comment c) = calm c"
| "supported (Ifdef x) = is_name x"
| "supported (Ifndef x) = is_name x"
| "supported Else = True"
| "supported Endif = True"
| "supported (Define x b) = (is_name x \<and> supported_text b)"
| "supported (Undef x) = is_name x"
| "supported (Include p) = True"
| "supported (Import p) = True"
| "supported (Error msg) = (calm msg \<and> CHR ''/'' \<notin> set msg)"
| "supported (Unknown d) = False"
| "supported (Code t) = (supported_text (strip_comment t) \<and> calm t)"

text \<open>
  The effect of one line of the fragment that is not an inclusion: on the stack of
  conditionals and on the state. A directive in a branch that is not selected does
  nothing, apart from the conditionals, which keep the nesting. The two inclusion
  directives are run by \<open>exec\<close> below and never reach \<open>effect\<close>; its last
  two equations only make it total, and so does the one for \<open>Unknown\<close>.
\<close>

fun effect :: "line \<Rightarrow> conds \<Rightarrow> pp_state \<Rightarrow> error + conds \<times> pp_state" where
  "effect Blank stk st = Inr (stk, st)"
| "effect (Comment c) stk st = Inr (stk, st)"
| "effect (Ifdef m) stk st = Inr ((m \<in> macros st, False) # stk, st)"
| "effect (Ifndef m) stk st = Inr ((m \<notin> macros st, False) # stk, st)"
| "effect Else stk st =
     (case stk of
        [] \<Rightarrow> Inl ElseWithoutIf
      | c # cs \<Rightarrow> if snd c then Inl ElseAfterElse else Inr ((\<not> fst c, True) # cs, st))"
| "effect Endif stk st =
     (case stk of [] \<Rightarrow> Inl EndifWithoutIf | c # cs \<Rightarrow> Inr (cs, st))"
| "effect (Define m b) stk st =
     Inr (stk, if active stk then st\<lparr>table := fmupd m (tokenize b) (table st)\<rparr> else st)"
| "effect (Undef m) stk st =
     Inr (stk, if active stk then st\<lparr>table := fmdrop m (table st)\<rparr> else st)"
| "effect (Error msg) stk st =
     (if active stk then Inl (ErrorDirective msg) else Inr (stk, st))"
| "effect (Code t) stk st =
     Inr (stk, if active stk
               then st\<lparr>emitted :=
                      emitted st @ [expand (table st) (tokenize (strip_comment t))]\<rparr>
               else st)"
| "effect (Unknown d) stk st = Inr (stk, st)"
| "effect (Include p) stk st = Inr (stk, st)"
| "effect (Import p) stk st = Inr (stk, st)"

text \<open>One line: refused when it is outside the fragment, run otherwise.\<close>

definition step :: "line \<Rightarrow> conds \<Rightarrow> pp_state \<Rightarrow> error + conds \<times> pp_state" where
  "step l stk st = (if supported l then effect l stk st else Inl (Unsupported l))"

text \<open>
  What a selected inclusion directive does before any line of the file is read: the
  file is missing, or it is passed over, or it is entered. \<^verbatim>\<open>#import\<close> marks
  the file and enters it unless it was entered before; \<^verbatim>\<open>#include\<close> enters it
  unless it is marked.
\<close>

datatype decision = Missing | Skip pp_state | Enter "line list" pp_state

definition resolve_include :: "files \<Rightarrow> string \<Rightarrow> pp_state \<Rightarrow> decision" where
  "resolve_include fs p st =
     (case map_of fs p of
        None \<Rightarrow> Missing
      | Some body \<Rightarrow>
          if p \<in> once st then Skip st
          else Enter body (st\<lparr>entered := insert p (entered st)\<rparr>))"

definition resolve_import :: "files \<Rightarrow> string \<Rightarrow> pp_state \<Rightarrow> decision" where
  "resolve_import fs p st =
     (case map_of fs p of
        None \<Rightarrow> Missing
      | Some body \<Rightarrow>
          if p \<in> entered st then Skip (st\<lparr>once := insert p (once st)\<rparr>)
          else Enter body (st\<lparr>entered := insert p (entered st), once := insert p (once st)\<rparr>))"

text \<open>
  \<open>exec fs n ls stk st\<close> runs the lines \<open>ls\<close> of one file. The number \<open>n\<close> bounds
  the depth of nested inclusions: entering a file costs one, and \<open>None\<close> is the answer
  when the bound does not suffice. \<open>Some (Inl e)\<close> is a failed run, \<open>Some (Inr st')\<close> a
  completed one. A file must close the conditionals it opens.
\<close>

fun exec :: "files \<Rightarrow> nat \<Rightarrow> line list \<Rightarrow> conds \<Rightarrow> pp_state \<Rightarrow> (error + pp_state) option" where
  "exec fs n [] stk st =
     (if stk = [] then Some (Inr st) else Some (Inl UnterminatedConditional))"
| "exec fs n (Include p # ls) stk st =
     (if \<not> active stk then exec fs n ls stk st
      else case resolve_include fs p st of
        Missing \<Rightarrow> Some (Inl (FileNotFound p))
      | Skip st1 \<Rightarrow> exec fs n ls stk st1
      | Enter body st1 \<Rightarrow>
          (case n of
             0 \<Rightarrow> None
           | Suc k \<Rightarrow>
               (case exec fs k body [] st1 of
                  None \<Rightarrow> None
                | Some (Inl e) \<Rightarrow> Some (Inl e)
                | Some (Inr st2) \<Rightarrow> exec fs n ls stk st2)))"
| "exec fs n (Import p # ls) stk st =
     (if \<not> active stk then exec fs n ls stk st
      else case resolve_import fs p st of
        Missing \<Rightarrow> Some (Inl (FileNotFound p))
      | Skip st1 \<Rightarrow> exec fs n ls stk st1
      | Enter body st1 \<Rightarrow>
          (case n of
             0 \<Rightarrow> None
           | Suc k \<Rightarrow>
               (case exec fs k body [] st1 of
                  None \<Rightarrow> None
                | Some (Inl e) \<Rightarrow> Some (Inl e)
                | Some (Inr st2) \<Rightarrow> exec fs n ls stk st2)))"
| "exec fs n (l # ls) stk st =
     (case step l stk st of
        Inl e \<Rightarrow> Some (Inl e)
      | Inr (stk1, st1) \<Rightarrow> exec fs n ls stk1 st1)"

text \<open>Processing the bridging header: its lines, run from outside any conditional.\<close>

definition process_header :: "files \<Rightarrow> nat \<Rightarrow> pp_state \<Rightarrow> (error + pp_state) option" where
  "process_header fs n st = exec fs n bridging_header [] st"

subsection \<open>Notions used in the statements\<close>

fun is_comment :: "line \<Rightarrow> bool" where
  "is_comment (Comment c) = True"
| "is_comment l = False"


fun is_error :: "line \<Rightarrow> bool" where
  "is_error (Error msg) = True"
| "is_error l = False"

fun is_inclusion :: "line \<Rightarrow> bool" where
  "is_inclusion (Include p) = True"
| "is_inclusion (Import p) = True"
| "is_inclusion l = False"



fun inclusions_of :: "line list \<Rightarrow> string list" where
  "inclusions_of [] = []"
| "inclusions_of (Include p # ls) = p # inclusions_of ls"
| "inclusions_of (Import p # ls) = p # inclusions_of ls"
| "inclusions_of (l # ls) = inclusions_of ls"




text \<open>The state with the guard macro defined in addition, as the file defines it.\<close>

definition with_guard :: "pp_state \<Rightarrow> pp_state" where
  "with_guard st = st\<lparr>table := fmupd guard [] (table st)\<rparr>"

text \<open>
  The state in which the first line of the imported header is read, when the bridging
  header is processed from \<open>st\<close> and the import enters the file.
\<close>

definition at_entry :: "pp_state \<Rightarrow> pp_state" where
  "at_entry st =
     st\<lparr>table := fmupd guard [] (table st),
        entered := insert c_api (entered st),
        once := insert c_api (once st)\<rparr>"

text \<open>Importing the external header directly: a file of one line, the directive.\<close>

definition direct_import :: "files \<Rightarrow> nat \<Rightarrow> pp_state \<Rightarrow> (error + pp_state) option" where
  "direct_import fs n st = exec fs n [Import c_api] [] st"



text \<open>Processing the bridging header returns: some bound on the depth suffices.\<close>

definition returns :: "files \<Rightarrow> pp_state \<Rightarrow> bool" where
  "returns fs st = (\<exists>n. process_header fs n st \<noteq> None)"


text \<open>
  Relations between two runs, lifted from a relation on states: the same decision, the
  same failure, the same stack of conditionals, and related states.
\<close>

fun decision_rel :: "(pp_state \<Rightarrow> pp_state \<Rightarrow> bool) \<Rightarrow> decision \<Rightarrow> decision \<Rightarrow> bool" where
  "decision_rel R Missing d = (d = Missing)"
| "decision_rel R (Skip s) d = (\<exists>s'. d = Skip s' \<and> R s s')"
| "decision_rel R (Enter body s) d = (\<exists>s'. d = Enter body s' \<and> R s s')"

fun result_rel ::
  "(pp_state \<Rightarrow> pp_state \<Rightarrow> bool) \<Rightarrow> error + pp_state \<Rightarrow> error + pp_state \<Rightarrow> bool" where
  "result_rel R (Inl e) r = (r = Inl e)"
| "result_rel R (Inr s) r = (\<exists>s'. r = Inr s' \<and> R s s')"

fun outcome_rel ::
  "(pp_state \<Rightarrow> pp_state \<Rightarrow> bool) \<Rightarrow> error + conds \<times> pp_state
    \<Rightarrow> error + conds \<times> pp_state \<Rightarrow> bool" where
  "outcome_rel R (Inl e) r = (r = Inl e)"
| "outcome_rel R (Inr (stk, s)) r = (\<exists>s'. r = Inr (stk, s') \<and> R s s')"

subsection \<open>Translation units and file systems for the examples\<close>

text \<open>A translation unit in which nothing has happened yet.\<close>

definition start :: pp_state where
  "start = \<lparr>table = fmempty, entered = {}, once = {}, emitted = []\<rparr>"

text \<open>An external header with a guard of its own and one declaration.\<close>

definition sample_fs :: files where
  "sample_fs =
     [(c_api,
       [Ifndef ''SAMPLE_C_API_H_'',
        Define ''SAMPLE_C_API_H_'' [],
        Code ''int SampleCreate(void);'',
        Endif])]"




text \<open>An external header that includes a file which includes itself.\<close>

definition loop_fs :: files where
  "loop_fs = [(c_api, [Include ''loop.h'']), (''loop.h'', [Include ''loop.h''])]"

text \<open>An external header that refuses to be compiled.\<close>

definition error_fs :: files where
  "error_fs = [(c_api, [Error ''unsupported platform''])]"

text \<open>An external header that includes the bridging header back.\<close>

definition reentrant_fs :: files where
  "reentrant_fs =
     [(c_api, [Include ''SherpaOnnx-Bridging-Header.h'', Code ''int SampleCreate(void);'']),
      (''SherpaOnnx-Bridging-Header.h'', bridging_header)]"

subsection \<open>What the reader makes of the file\<close>

lemma bridging_header_lines:
  "bridging_header =
     [Comment ''// SherpaOnnx-Bridging-Header.h'',
      Comment ''// Bridging header for sherpa-onnx C API in Dictum'',
      Comment ''//'',
      Comment ''// This header imports the C API functions so they can be used from Swift'',
      Blank,
      Ifndef guard,
      Define guard [],
      Blank,
      Import c_api,
      Blank,
      Endif]"
  by (simp add: bridging_header_def bridging_header_text_def parse_line_def parse_directive_def
      trailing_ok_def calm_def ltrim_def is_space_def is_ident_def guard_def c_api_def Let_def)

lemmas text_defs = supported_text_def plain_def tokenize_def is_ident_def is_space_def
  is_digit_def in_number_def reserved_def is_name_def calm_def step_def

lemma guard_is_name: "is_name guard"
  by (simp add: guard_def is_name_def is_ident_def is_digit_def)

subsection \<open>Induction over a run, and related runs\<close>

lemma exec_other:
  "\<not> is_inclusion l \<Longrightarrow>
   exec fs n (l # ls) stk st =
     (case step l stk st of
        Inl e \<Rightarrow> Some (Inl e)
      | Inr (stk1, st1) \<Rightarrow> exec fs n ls stk1 st1)"
  by (cases l) simp_all

lemma exec_induct4 [case_names Nil Include Import Other]:
  assumes "\<And>fs n stk st. P fs n [] stk st"
    and "\<And>fs n p ls stk st.
      \<lbrakk>\<not> active stk \<Longrightarrow> P fs n ls stk st;
       \<And>st1. \<lbrakk>active stk; resolve_include fs p st = Skip st1\<rbrakk> \<Longrightarrow> P fs n ls stk st1;
       \<And>body st1 k. \<lbrakk>active stk; resolve_include fs p st = Enter body st1; n = Suc k\<rbrakk>
          \<Longrightarrow> P fs k body [] st1;
       \<And>body st1 k st2. \<lbrakk>active stk; resolve_include fs p st = Enter body st1; n = Suc k;
           exec fs k body [] st1 = Some (Inr st2)\<rbrakk> \<Longrightarrow> P fs n ls stk st2\<rbrakk>
      \<Longrightarrow> P fs n (Include p # ls) stk st"
    and "\<And>fs n p ls stk st.
      \<lbrakk>\<not> active stk \<Longrightarrow> P fs n ls stk st;
       \<And>st1. \<lbrakk>active stk; resolve_import fs p st = Skip st1\<rbrakk> \<Longrightarrow> P fs n ls stk st1;
       \<And>body st1 k. \<lbrakk>active stk; resolve_import fs p st = Enter body st1; n = Suc k\<rbrakk>
          \<Longrightarrow> P fs k body [] st1;
       \<And>body st1 k st2. \<lbrakk>active stk; resolve_import fs p st = Enter body st1; n = Suc k;
           exec fs k body [] st1 = Some (Inr st2)\<rbrakk> \<Longrightarrow> P fs n ls stk st2\<rbrakk>
      \<Longrightarrow> P fs n (Import p # ls) stk st"
    and "\<And>fs n l ls stk st.
      \<lbrakk>\<not> is_inclusion l;
       \<And>stk1 st1. step l stk st = Inr (stk1, st1) \<Longrightarrow> P fs n ls stk1 st1\<rbrakk>
      \<Longrightarrow> P fs n (l # ls) stk st"
  shows "P fs n ls stk st"
proof (induction fs n ls stk st rule: exec.induct)
  case (1 fs n stk st)
  show ?case by (rule assms(1))
next
  case (2 fs n p ls stk st)
  show ?case by (rule assms(2)) (use 2 in blast)+
next
  case (3 fs n p ls stk st)
  show ?case by (rule assms(3)) (use 3 in blast)+
qed (rule assms(4), simp, blast)+


lemma exec_induct_files [case_names Nil Include Import Other]:
  assumes "\<And>n stk st. P n [] stk st"
    and "\<And>n p ls stk st.
      \<lbrakk>\<not> active stk \<Longrightarrow> P n ls stk st;
       \<And>st1. \<lbrakk>active stk; resolve_include fs p st = Skip st1\<rbrakk> \<Longrightarrow> P n ls stk st1;
       \<And>body st1 k. \<lbrakk>active stk; resolve_include fs p st = Enter body st1; n = Suc k\<rbrakk>
          \<Longrightarrow> P k body [] st1;
       \<And>body st1 k st2. \<lbrakk>active stk; resolve_include fs p st = Enter body st1; n = Suc k;
           exec fs k body [] st1 = Some (Inr st2)\<rbrakk> \<Longrightarrow> P n ls stk st2\<rbrakk>
      \<Longrightarrow> P n (Include p # ls) stk st"
    and "\<And>n p ls stk st.
      \<lbrakk>\<not> active stk \<Longrightarrow> P n ls stk st;
       \<And>st1. \<lbrakk>active stk; resolve_import fs p st = Skip st1\<rbrakk> \<Longrightarrow> P n ls stk st1;
       \<And>body st1 k. \<lbrakk>active stk; resolve_import fs p st = Enter body st1; n = Suc k\<rbrakk>
          \<Longrightarrow> P k body [] st1;
       \<And>body st1 k st2. \<lbrakk>active stk; resolve_import fs p st = Enter body st1; n = Suc k;
           exec fs k body [] st1 = Some (Inr st2)\<rbrakk> \<Longrightarrow> P n ls stk st2\<rbrakk>
      \<Longrightarrow> P n (Import p # ls) stk st"
    and "\<And>n l ls stk st.
      \<lbrakk>\<not> is_inclusion l;
       \<And>stk1 st1. step l stk st = Inr (stk1, st1) \<Longrightarrow> P n ls stk1 st1\<rbrakk>
      \<Longrightarrow> P n (l # ls) stk st"
  shows "P n ls stk st"
proof -
  have "fs' = fs \<longrightarrow> P n ls stk st" for fs'
  proof (induction fs' n ls stk st rule: exec_induct4)
    case (Nil fs' n stk st)
    show ?case by (simp add: assms(1))
  next
    case (Include fs' n p ls stk st)
    show ?case
    proof
      assume eq: "fs' = fs"
      show "P n (Include p # ls) stk st"
        by (rule assms(2)) (use Include eq in blast)+
    qed
  next
    case (Import fs' n p ls stk st)
    show ?case
    proof
      assume eq: "fs' = fs"
      show "P n (Import p # ls) stk st"
        by (rule assms(3)) (use Import eq in blast)+
    qed
  next
    case (Other fs' n l ls stk st)
    show ?case
    proof
      assume eq: "fs' = fs"
      show "P n (l # ls) stk st"
        by (rule assms(4)) (use Other eq in blast)+
    qed
  qed
  then show ?thesis by simp
qed

lemma resolve_include_file:
  "resolve_include fs p st = Enter body st1 \<Longrightarrow> map_of fs p = Some body"
  by (auto simp: resolve_include_def split: option.splits if_splits)

lemma resolve_import_file:
  "resolve_import fs p st = Enter body st1 \<Longrightarrow> map_of fs p = Some body"
  by (auto simp: resolve_import_def split: option.splits if_splits)

lemma exec_sim:
  assumes stp: "\<And>l stk s s'. ok l \<Longrightarrow> R s s' \<Longrightarrow> outcome_rel R (step l stk s) (step l stk s')"
    and inc: "\<And>p s s'. R s s' \<Longrightarrow>
        decision_rel R (resolve_include fs p s) (resolve_include fs' p s')"
    and imp: "\<And>p s s'. R s s' \<Longrightarrow>
        decision_rel R (resolve_import fs p s) (resolve_import fs' p s')"
    and files: "\<And>p body. map_of fs p = Some body \<Longrightarrow> list_all ok body"
  shows "list_all ok ls \<Longrightarrow> R st st' \<Longrightarrow> n \<le> m \<Longrightarrow> exec fs n ls stk st = Some r \<Longrightarrow>
         \<exists>r'. exec fs' m ls stk st' = Some r' \<and> result_rel R r r'"
proof (induction n ls stk st arbitrary: st' m r rule: exec_induct_files[where fs = fs])
  case (Nil n stk st)
  then show ?case by auto
next
  case (Other n l ls stk st)
  from Other.prems have okl: "ok l" and okls: "list_all ok ls" by simp_all
  from stp[OF okl \<open>R st st'\<close>] have sr: "outcome_rel R (step l stk st) (step l stk st')" .
  show ?case
  proof (cases "step l stk st")
    case (Inl e)
    with sr Other.hyps Other.prems(4) show ?thesis by (auto simp: exec_other)
  next
    case (Inr b)
    obtain stk1 st1 where b: "b = (stk1, st1)" by (cases b)
    with sr Inr obtain st1' where s': "step l stk st' = Inr (stk1, st1')" and R1: "R st1 st1'"
      by auto
    from Other.prems(4) Inr b Other.hyps have "exec fs n ls stk1 st1 = Some r"
      by (simp add: exec_other)
    from Other.IH[OF _ okls R1 \<open>n \<le> m\<close> this] Inr b
    show ?thesis using s' Other.hyps by (simp add: exec_other)
  qed
next
  case (Include n p ls stk st)
  from Include.prems have okls: "list_all ok ls" by simp
  show ?case
  proof (cases "active stk")
    case False
    with Include.prems(4) have "exec fs n ls stk st = Some r" by simp
    from Include.IH(1)[OF False okls \<open>R st st'\<close> \<open>n \<le> m\<close> this] False
    show ?thesis by simp
  next
    case act: True
    from inc[OF \<open>R st st'\<close>]
    have dr: "decision_rel R (resolve_include fs p st) (resolve_include fs' p st')" .
    show ?thesis
    proof (cases "resolve_include fs p st")
      case Missing
      with dr act Include.prems(4) show ?thesis by auto
    next
      case (Skip st1)
      with dr obtain st1' where d': "resolve_include fs' p st' = Skip st1'" and R1: "R st1 st1'"
        by auto
      from Skip act Include.prems(4) have "exec fs n ls stk st1 = Some r" by simp
      from Include.IH(2)[OF act Skip okls R1 \<open>n \<le> m\<close> this] act d'
      show ?thesis by simp
    next
      case (Enter body st1)
      with dr obtain st1' where d': "resolve_include fs' p st' = Enter body st1'"
        and R1: "R st1 st1'" by auto
      from Enter act Include.prems(4) obtain k where n: "n = Suc k" by (cases n) auto
      with \<open>n \<le> m\<close> obtain j where m: "m = Suc j" and kj: "k \<le> j" by (cases m) auto
      from Enter act n Include.prems(4) obtain r0 where r0: "exec fs k body [] st1 = Some r0"
        by (auto split: option.splits)
      have okb: "list_all ok body" by (rule files[OF resolve_include_file[OF Enter]])
      from Include.IH(3)[OF act Enter n okb R1 kj r0]
      obtain r0' where r0': "exec fs' j body [] st1' = Some r0'" and rr: "result_rel R r0 r0'"
        by blast
      show ?thesis
      proof (cases r0)
        case (Inl e)
        with rr r0 r0' act Enter d' n m Include.prems(4) show ?thesis by auto
      next
        case (Inr st2)
        with rr obtain st2' where r0'': "r0' = Inr st2'" and R2: "R st2 st2'" by auto
        from Inr r0 act Enter n Include.prems(4) have "exec fs n ls stk st2 = Some r" by simp
        from Include.IH(4)[OF act Enter n r0[unfolded Inr] okls R2 \<open>n \<le> m\<close> this]
        show ?thesis using act d' m r0' r0'' by simp
      qed
    qed
  qed
next
  case (Import n p ls stk st)
  from Import.prems have okls: "list_all ok ls" by simp
  show ?case
  proof (cases "active stk")
    case False
    with Import.prems(4) have "exec fs n ls stk st = Some r" by simp
    from Import.IH(1)[OF False okls \<open>R st st'\<close> \<open>n \<le> m\<close> this] False
    show ?thesis by simp
  next
    case act: True
    from imp[OF \<open>R st st'\<close>]
    have dr: "decision_rel R (resolve_import fs p st) (resolve_import fs' p st')" .
    show ?thesis
    proof (cases "resolve_import fs p st")
      case Missing
      with dr act Import.prems(4) show ?thesis by auto
    next
      case (Skip st1)
      with dr obtain st1' where d': "resolve_import fs' p st' = Skip st1'" and R1: "R st1 st1'"
        by auto
      from Skip act Import.prems(4) have "exec fs n ls stk st1 = Some r" by simp
      from Import.IH(2)[OF act Skip okls R1 \<open>n \<le> m\<close> this] act d'
      show ?thesis by simp
    next
      case (Enter body st1)
      with dr obtain st1' where d': "resolve_import fs' p st' = Enter body st1'"
        and R1: "R st1 st1'" by auto
      from Enter act Import.prems(4) obtain k where n: "n = Suc k" by (cases n) auto
      with \<open>n \<le> m\<close> obtain j where m: "m = Suc j" and kj: "k \<le> j" by (cases m) auto
      from Enter act n Import.prems(4) obtain r0 where r0: "exec fs k body [] st1 = Some r0"
        by (auto split: option.splits)
      have okb: "list_all ok body" by (rule files[OF resolve_import_file[OF Enter]])
      from Import.IH(3)[OF act Enter n okb R1 kj r0]
      obtain r0' where r0': "exec fs' j body [] st1' = Some r0'" and rr: "result_rel R r0 r0'"
        by blast
      show ?thesis
      proof (cases r0)
        case (Inl e)
        with rr r0 r0' act Enter d' n m Import.prems(4) show ?thesis by auto
      next
        case (Inr st2)
        with rr obtain st2' where r0'': "r0' = Inr st2'" and R2: "R st2 st2'" by auto
        from Inr r0 act Enter n Import.prems(4) have "exec fs n ls stk st2 = Some r" by simp
        from Import.IH(4)[OF act Enter n r0[unfolded Inr] okls R2 \<open>n \<le> m\<close> this]
        show ?thesis using act d' m r0' r0'' by simp
      qed
    qed
  qed
qed

subsection \<open>What processing the bridging header amounts to\<close>

lemma process_header_unfold:
  "process_header fs n st =
     (if guard \<in> macros st then Some (Inr st) else direct_import fs n (with_guard st))"
  by (simp add: process_header_def bridging_header_lines active_def with_guard_def
      direct_import_def step_def guard_is_name supported_text_def plain_def tokenize_def
      calm_def split: option.splits nat.splits sum.splits decision.splits)

lemma direct_import_unfold:
  "direct_import fs n st =
     (case map_of fs c_api of
        None \<Rightarrow> Some (Inl (FileNotFound c_api))
      | Some body \<Rightarrow>
          if c_api \<in> entered st then Some (Inr (st\<lparr>once := insert c_api (once st)\<rparr>))
          else (case n of
                  0 \<Rightarrow> None
                | Suc k \<Rightarrow>
                    exec fs k body []
                      (st\<lparr>entered := insert c_api (entered st),
                          once := insert c_api (once st)\<rparr>)))"
  by (simp add: direct_import_def active_def resolve_import_def
      split: option.splits nat.splits sum.splits)

lemma process_header_available:
  assumes "map_of fs c_api = Some body"
  shows "process_header fs n st =
     (if guard \<in> macros st then Some (Inr st)
      else if c_api \<in> entered st
        then Some (Inr ((with_guard st)\<lparr>once := insert c_api (once st)\<rparr>))
      else (case n of 0 \<Rightarrow> None | Suc k \<Rightarrow> exec fs k body [] (at_entry st)))"
  using assms
  by (simp add: process_header_unfold direct_import_unfold with_guard_def at_entry_def
      split: nat.splits)

lemma process_header_guarded:
  "guard \<in> macros st \<Longrightarrow> process_header fs n st = Some (Inr st)"
  by (simp add: process_header_unfold)


subsection \<open>Runs that differ in the bound, in the file system, or in the guard macro\<close>

lemma exec_same_files:
  assumes "exec fs n ls stk st = Some r" and "n \<le> m" and "map_of fs = map_of fs'"
  shows "exec fs' m ls stk st = Some r"
proof -
  have "\<exists>r'. exec fs' m ls stk st = Some r' \<and> result_rel (=) r r'"
  proof (rule exec_sim[where ok = "\<lambda>l. True" and R = "(=)" and fs = fs])
    show "outcome_rel (=) (step l stk s) (step l stk s')" if "s = s'" for l stk s s'
      using that by (cases "step l stk s'") auto
    show "decision_rel (=) (resolve_include fs p s) (resolve_include fs' p s')" if "s = s'"
      for p s s' using that assms(3)
      by (cases "resolve_include fs' p s'") (auto simp: resolve_include_def)
    show "decision_rel (=) (resolve_import fs p s) (resolve_import fs' p s')" if "s = s'"
      for p s s' using that assms(3)
      by (cases "resolve_import fs' p s'") (auto simp: resolve_import_def)
    show "list_all (\<lambda>l. True) body" for body :: "line list" by (simp add: list_all_iff)
    show "list_all (\<lambda>l. True) ls" by (simp add: list_all_iff)
  qed (use assms in simp_all)
  then show ?thesis by (cases r) auto
qed

lemma exec_fuel_mono:
  assumes "exec fs n ls stk st = Some r" and "n \<le> m"
  shows "exec fs m ls stk st = Some r"
  using assms by (rule exec_same_files) simp







subsection \<open>Runs of the examples\<close>


lemma sample_direct_run:
  "direct_import sample_fs (Suc 0) start =
     Some (Inr \<lparr>table = fmupd ''SAMPLE_C_API_H_'' [] fmempty,
                entered = {c_api}, once = {c_api},
                emitted = [[''int'', ''SampleCreate'', ''('', ''void'', '')'', '';'']]\<rparr>)"
  by (simp add: direct_import_unfold sample_fs_def start_def active_def macros_def text_defs)




subsection \<open>Repeated inclusion\<close>










subsection \<open>The bridging header against a direct import\<close>






subsection \<open>What the bridging header adds\<close>




subsection \<open>The shape of the file\<close>

text \<open>
  C4. Apart from comments and blank lines the file is four lines: the test of the guard
  macro, its definition, the import, and the end of the conditional, in this order. So
  it has one \<^verbatim>\<open>#ifndef\<close>, one \<^verbatim>\<open>#define\<close>, one \<^verbatim>\<open>#import\<close>, one
  \<^verbatim>\<open>#endif\<close>, and no other directive and no line of code.
\<close>

theorem header_is_one_import_in_a_guard:
  "[l \<leftarrow> bridging_header. l \<noteq> Blank \<and> \<not> is_comment l] =
     [Ifndef guard, Define guard [], Import c_api, Endif] \<and>
   length bridging_header = 11 \<and>
   length [l \<leftarrow> bridging_header. is_comment l] = 4 \<and>
   length [l \<leftarrow> bridging_header. l = Blank] = 3"
  by (simp add: bridging_header_lines)


subsection \<open>Failures\<close>

text \<open>
  C5. The file has no \<^verbatim>\<open>#error\<close> and no alternative branch. Where the external
  header is available, processing the bridging header is running the lines of the
  external header, or nothing; so it fails exactly when it reads the external header
  and that run fails, and with the same error.
\<close>

theorem header_raises_no_error_of_its_own:
  assumes "map_of fs c_api = Some body"
  shows "[l \<leftarrow> bridging_header. is_error l \<or> l = Else] = [] \<and>
     process_header fs n st =
       (if guard \<in> macros st then Some (Inr st)
        else if c_api \<in> entered st
          then Some (Inr ((with_guard st)\<lparr>once := insert c_api (once st)\<rparr>))
        else (case n of 0 \<Rightarrow> None | Suc k \<Rightarrow> exec fs k body [] (at_entry st))) \<and>
     (process_header fs n st = Some (Inl e) \<longleftrightarrow>
        guard \<notin> macros st \<and> c_api \<notin> entered st \<and>
        (\<exists>k. n = Suc k \<and> exec fs k body [] (at_entry st) = Some (Inl e)))"
proof (intro conjI)
  show "[l \<leftarrow> bridging_header. is_error l \<or> l = Else] = []"
    by (simp add: bridging_header_lines)
  show "process_header fs n st =
       (if guard \<in> macros st then Some (Inr st)
        else if c_api \<in> entered st
          then Some (Inr ((with_guard st)\<lparr>once := insert c_api (once st)\<rparr>))
        else (case n of 0 \<Rightarrow> None | Suc k \<Rightarrow> exec fs k body [] (at_entry st)))"
    by (rule process_header_available[OF assms])
  show "process_header fs n st = Some (Inl e) \<longleftrightarrow>
        guard \<notin> macros st \<and> c_api \<notin> entered st \<and>
        (\<exists>k. n = Suc k \<and> exec fs k body [] (at_entry st) = Some (Inl e))"
    by (simp add: process_header_available[OF assms] split: nat.splits)
qed

theorem header_raises_no_error_of_its_own_witness:
  "map_of error_fs c_api = Some [Error ''unsupported platform''] \<and>
   process_header error_fs (Suc 0) start = Some (Inl (ErrorDirective ''unsupported platform'')) \<and>
   exec error_fs 0 [Error ''unsupported platform''] [] (at_entry start) =
     Some (Inl (ErrorDirective ''unsupported platform''))"
proof -
  have h: "map_of error_fs c_api = Some [Error ''unsupported platform'']"
    by (simp add: error_fs_def)
  have r: "exec error_fs 0 [Error ''unsupported platform''] [] (at_entry start) =
     Some (Inl (ErrorDirective ''unsupported platform''))"
    by (simp add: active_def step_def calm_def)
  have "guard \<notin> macros start \<and> c_api \<notin> entered start"
    by (simp add: start_def macros_def)
  with header_raises_no_error_of_its_own[OF h, of "Suc 0" start
      "ErrorDirective ''unsupported platform''"] r
  have "process_header error_fs (Suc 0) start =
      Some (Inl (ErrorDirective ''unsupported platform''))" by blast
  with h r show ?thesis by simp
qed

subsection \<open>Determinism\<close>


lemma sample_run_deeper:
  "process_header sample_fs (Suc (Suc (Suc 0))) start =
     Some (Inr \<lparr>table = fmupd ''SAMPLE_C_API_H_'' [] (fmupd guard [] fmempty),
                entered = {c_api}, once = {c_api},
                emitted = [[''int'', ''SampleCreate'', ''('', ''void'', '')'', '';'']]\<rparr>)"
  by (simp add: process_header_unfold direct_import_unfold with_guard_def sample_fs_def
      start_def active_def guard_def macros_def text_defs)



subsection \<open>The guard macro\<close>





subsection \<open>Termination\<close>

lemma loop_never_returns:
  "''loop.h'' \<notin> once st \<Longrightarrow> exec loop_fs n [Include ''loop.h''] [] st = None"
proof (induction n arbitrary: st)
  case 0
  then show ?case
    by (simp add: loop_fs_def c_api_def active_def resolve_include_def)
next
  case (Suc n)
  have "exec loop_fs n [Include ''loop.h''] [] (st\<lparr>entered := insert ''loop.h'' (entered st)\<rparr>)
      = None"
    by (rule Suc.IH) (use Suc.prems in simp)
  with Suc.prems show ?case
    by (simp add: loop_fs_def c_api_def active_def resolve_include_def)
qed

text \<open>
  C8, as stated, fails. The bridging header enters the external header, and what that
  header includes is not bounded by anything in the bridging header: over a file that
  includes itself, no bound on the depth lets the processing return.
\<close>

theorem processing_need_not_return: "\<not> returns loop_fs start"
proof -
  have "process_header loop_fs n start = None" for n
  proof (cases n)
    case 0
    then show ?thesis
      by (simp add: process_header_unfold direct_import_unfold with_guard_def start_def
          loop_fs_def macros_def)
  next
    case (Suc k)
    have "exec loop_fs k [Include ''loop.h''] [] (at_entry start) = None"
      by (rule loop_never_returns) (simp add: at_entry_def start_def c_api_def)
    moreover have "map_of loop_fs c_api = Some [Include ''loop.h'']"
      by (simp add: loop_fs_def)
    ultimately show ?thesis using Suc
      by (simp add: process_header_available start_def macros_def)
  qed
  then show ?thesis by (simp add: returns_def)
qed

text \<open>
  C8, amended. The only file the bridging header names is the external header, not
  itself. A processing that starts with the guard macro defined returns at depth zero:
  a re-entrant inclusion reads no file. Otherwise the processing fails to return within
  a bound exactly when it enters the external header and the lines of that header fail
  to return within the bound less one; so it returns whenever the run of the external
  header does.
\<close>

theorem processing_returns_when_the_import_does:
  "inclusions_of bridging_header = [c_api] \<and>
   (guard \<in> macros st \<longrightarrow> process_header fs 0 st = Some (Inr st)) \<and>
   (process_header fs n st = None \<longleftrightarrow>
      guard \<notin> macros st \<and> c_api \<notin> entered st \<and>
      (\<exists>body. map_of fs c_api = Some body \<and>
         (n = 0 \<or> (\<exists>k. n = Suc k \<and> exec fs k body [] (at_entry st) = None)))) \<and>
   (returns fs st \<longleftrightarrow>
      guard \<in> macros st \<or> c_api \<in> entered st \<or> map_of fs c_api = None \<or>
      (\<exists>body k. map_of fs c_api = Some body \<and> exec fs k body [] (at_entry st) \<noteq> None))"
proof (intro conjI impI)
  show "inclusions_of bridging_header = [c_api]" by (simp add: bridging_header_lines)
  show "process_header fs 0 st = Some (Inr st)" if "guard \<in> macros st"
    using that by (rule process_header_guarded)
  show none: "process_header fs n st = None \<longleftrightarrow>
      guard \<notin> macros st \<and> c_api \<notin> entered st \<and>
      (\<exists>body. map_of fs c_api = Some body \<and>
         (n = 0 \<or> (\<exists>k. n = Suc k \<and> exec fs k body [] (at_entry st) = None)))" for n
  proof (cases "map_of fs c_api")
    case None
    then show ?thesis by (simp add: process_header_unfold direct_import_unfold)
  next
    case (Some body)
    then show ?thesis
      by (simp add: process_header_available[OF Some] split: nat.splits)
  qed
  show "returns fs st \<longleftrightarrow>
      guard \<in> macros st \<or> c_api \<in> entered st \<or> map_of fs c_api = None \<or>
      (\<exists>body k. map_of fs c_api = Some body \<and> exec fs k body [] (at_entry st) \<noteq> None)"
  proof (cases "map_of fs c_api")
    case None
    then show ?thesis by (simp add: returns_def process_header_unfold direct_import_unfold)
  next
    case (Some body)
    show ?thesis
    proof (cases "guard \<in> macros st \<or> c_api \<in> entered st")
      case True
      then show ?thesis
        by (auto simp: returns_def process_header_available[OF Some])
    next
      case False
      have "(\<exists>n. process_header fs n st \<noteq> None) \<longleftrightarrow>
            (\<exists>k. exec fs k body [] (at_entry st) \<noteq> None)"
      proof
        assume "\<exists>n. process_header fs n st \<noteq> None"
        then obtain n where n: "process_header fs n st \<noteq> None" ..
        with False obtain k where "n = Suc k" "exec fs k body [] (at_entry st) \<noteq> None"
          by (cases n) (auto simp: process_header_available[OF Some])
        then show "\<exists>k. exec fs k body [] (at_entry st) \<noteq> None" by blast
      next
        assume "\<exists>k. exec fs k body [] (at_entry st) \<noteq> None"
        then obtain k where "exec fs k body [] (at_entry st) \<noteq> None" ..
        with False have "process_header fs (Suc k) st \<noteq> None"
          by (simp add: process_header_available[OF Some])
        then show "\<exists>n. process_header fs n st \<noteq> None" ..
      qed
      with False Some show ?thesis by (simp add: returns_def)
    qed
  qed
qed

lemma reentrant_body_returns:
  "exec reentrant_fs (Suc 0)
     [Include ''SherpaOnnx-Bridging-Header.h'', Code ''int SampleCreate(void);''] []
     (at_entry start) \<noteq> None"
  by (simp add: reentrant_fs_def c_api_def active_def resolve_include_def resolve_import_def
      at_entry_def start_def bridging_header_lines guard_def macros_def text_defs)

theorem processing_returns_when_the_import_does_witness:
  "guard \<in> macros (at_entry start) \<and>
   process_header reentrant_fs 0 (at_entry start) = Some (Inr (at_entry start)) \<and>
   returns reentrant_fs start"
proof -
  have g: "guard \<in> macros (at_entry start)" by (simp add: at_entry_def macros_def)
  have b: "map_of reentrant_fs c_api =
      Some [Include ''SherpaOnnx-Bridging-Header.h'', Code ''int SampleCreate(void);'']"
    by (simp add: reentrant_fs_def)
  from processing_returns_when_the_import_does[of "at_entry start" reentrant_fs 0] g
  have no_op: "process_header reentrant_fs 0 (at_entry start) = Some (Inr (at_entry start))"
    by blast
  from processing_returns_when_the_import_does[of start reentrant_fs 0] b reentrant_body_returns
  have "returns reentrant_fs start" by blast
  with g no_op show ?thesis by simp
qed

end
